theory Spec2Isabelle
  imports Main "HOL-Library.Multiset" "HOL-Library.Sublist"
begin

section \<open>The PDF merger of script.js\<close>

text \<open>
  script.js keeps one array, \<open>filesData\<close>, and a handful of DOM elements. Its handlers
  (\<open>handleFiles\<close>, \<open>removeFile\<close>, the \<open>drop\<close> listener of a list item, \<open>mergePDFs\<close>)
  are modelled as functions from the state before the handler to the state after it,
  together with the list of events the handler produced: calls into the browser and
  the two PDF libraries, \<open>console.error\<close>, \<open>alert\<close> and the download. Each handler is
  run from its first statement to its last without another handler in between; what
  the browser does when two handlers interleave at an \<open>await\<close> is outside this model.

  Everything the code does not compute itself is a parameter: the record \<open>env\<close> holds
  the answers of \<open>file.arrayBuffer()\<close>, of pdf.js and of pdf-lib, each of which may
  reject (\<open>Inl\<close>), and \<open>formatSize\<close>, whose floating-point arithmetic decides nothing
  here. \<open>Date.now()\<close> and \<open>Math.random().toString(36)\<close> are arguments of \<open>addFile\<close>.
\<close>

subsection \<open>Data\<close>

type_synonym bytes = "nat list"

type_synonym page = string

text \<open>A JavaScript \<open>Error\<close>; \<open>message\<close> is \<open>error.message\<close>.\<close>

datatype error = Error (message: string)

text \<open>A \<open>File\<close> of the browser: \<open>file.type\<close>, \<open>file.name\<close>, \<open>file.size\<close>.\<close>

record File =
  type_f :: string
  name_f :: string
  size_f :: nat

text \<open>What \<open>pdfjsLib.getDocument(...).promise\<close> resolves to.\<close>

record pdfDoc =
  numPages :: nat
  firstPage :: "error + string"

text \<open>
  One element of \<open>filesData\<close>, with the fields \<open>addFile\<close> pushes:
  \<open>id, file, name, size, sizeBytes, pageCount, thumbnail, pdfData\<close>.
\<close>

record entry =
  id_e :: string
  file_e :: File
  name_e :: string
  size_e :: string
  sizeBytes :: nat
  pageCount :: nat
  thumbnail :: string
  pdfData :: bytes

record env =
  arrayBuffer :: "File \<Rightarrow> error + bytes"
  getDocument :: "bytes \<Rightarrow> error + pdfDoc"
  formatSize :: "nat \<Rightarrow> string"
  PDFLib :: bool
  load :: "bytes \<Rightarrow> error + page list"
  save :: "page list \<Rightarrow> error + bytes"

text \<open>
  The events of a handler, in the order they happen. \<open>ReadFile f\<close> is a call of
  \<open>f.arrayBuffer()\<close>, \<open>Decode f\<close> the call of \<open>pdfjsLib.getDocument\<close> on the bytes read
  from \<open>f\<close>, \<open>Load f\<close> the call of \<open>PDFLib.PDFDocument.load\<close> on the bytes read from \<open>f\<close>.
\<close>

datatype event =
  ReadFile File
  | Decode File
  | Load File
  | ConsoleError string error
  | Alert string
  | Download bytes string

record state =
  filesData :: "entry list"
  mergeBtn_innerText :: string
  mergeBtn_disabled :: bool
  clearBtn_hidden :: bool
  successMessage_hidden :: bool

definition MAX_FILES_MSG :: string where
  "MAX_FILES_MSG = ''Only PDF files are accepted.''"

subsection \<open>The user interface\<close>

text \<open>
  \<open>updateUI\<close> calls \<open>renderFileList\<close>, \<open>updateStats\<close> and \<open>updateButtons\<close>. The first
  two write the list and two text nodes from \<open>filesData\<close> and read nothing back; only
  \<open>updateButtons\<close> touches the state kept here.
\<close>

definition updateButtons :: "state \<Rightarrow> state" where
  "updateButtons s =
     s\<lparr>mergeBtn_disabled := length (filesData s) < 2,
       clearBtn_hidden := \<not> (length (filesData s) > 0)\<rparr>"

definition updateUI :: "state \<Rightarrow> state" where
  "updateUI s = updateButtons s"

subsection \<open>Adding files\<close>

text \<open>\<open>String(n)\<close> of a non-negative integer: its decimal digits.\<close>

definition digit :: "nat \<Rightarrow> char" where
  "digit d = ''0123456789'' ! d"

fun toString :: "nat \<Rightarrow> string" where
  "toString n = (if n < 10 then [digit n] else toString (n div 10) @ [digit (n mod 10)])"

declare toString.simps [simp del]

text \<open>\<open>s.substr(start, len)\<close> for non-negative arguments.\<close>

definition substr :: "string \<Rightarrow> nat \<Rightarrow> nat \<Rightarrow> string" where
  "substr s start len = take len (drop start s)"

text \<open>
  \<open>Date.now() + Math.random().toString(36).substr(2, 9)\<close>: a number plus a string is the
  number's decimal text followed by the string. \<open>now\<close> is \<open>Date.now()\<close> and \<open>rand36\<close> is
  \<open>Math.random().toString(36)\<close>.
\<close>

definition newId :: "nat \<Rightarrow> string \<Rightarrow> string" where
  "newId now rand36 = toString now @ substr rand36 2 9"

text \<open>
  \<open>generateThumbnail\<close> catches every failure of rendering page 1, logs it and returns
  the empty string.
\<close>

definition generateThumbnail :: "pdfDoc \<Rightarrow> string \<times> event list" where
  "generateThumbnail doc =
     (case firstPage doc of
        Inr url \<Rightarrow> (url, [])
      | Inl e \<Rightarrow> ('''', [ConsoleError ''Error generating thumbnail'' e]))"

definition loadFailed :: "File \<Rightarrow> error \<Rightarrow> event list" where
  "loadFailed f e =
     [ConsoleError ''Error loading PDF:'' e,
      Alert (''Failed to load '' @ name_f f @ ''. It might be corrupted.'')]"

definition addFile :: "env \<Rightarrow> nat \<Rightarrow> string \<Rightarrow> File \<Rightarrow> state \<Rightarrow> state \<times> event list" where
  "addFile env now rand36 f s =
     (let ident = newId now rand36 in
      case arrayBuffer env f of
        Inl e \<Rightarrow> (s, ReadFile f # loadFailed f e)
      | Inr data \<Rightarrow>
          (case getDocument env data of
             Inl e \<Rightarrow> (s, ReadFile f # Decode f # loadFailed f e)
           | Inr doc \<Rightarrow>
               (let (thumb, evs) = generateThumbnail doc in
                (s\<lparr>filesData := filesData s @
                     [\<lparr>id_e = ident, file_e = f, name_e = name_f f,
                       size_e = formatSize env (size_f f), sizeBytes = size_f f,
                       pageCount = numPages doc, thumbnail = thumb, pdfData = data\<rparr>]\<rparr>,
                 ReadFile f # Decode f # evs))))"

text \<open>
  The loop \<open>for (const file of newFiles) await addFile(file)\<close>. \<open>clock k\<close> is what
  \<open>Date.now()\<close> and \<open>Math.random().toString(36)\<close> return in the \<open>k\<close>-th call of \<open>addFile\<close>
  of the batch.
\<close>

fun addFiles :: "env \<Rightarrow> (nat \<Rightarrow> nat \<times> string) \<Rightarrow> nat \<Rightarrow> File list \<Rightarrow> state \<Rightarrow> state \<times> event list" where
  "addFiles env clock k [] s = (s, [])"
| "addFiles env clock k (f # fs) s =
     (let (s1, evs1) = addFile env (fst (clock k)) (snd (clock k)) f s;
          (s2, evs2) = addFiles env clock (Suc k) fs s1
      in (s2, evs1 @ evs2))"

definition isPdf :: "File \<Rightarrow> bool" where
  "isPdf f = (type_f f = ''application/pdf'')"

definition handleFiles :: "env \<Rightarrow> (nat \<Rightarrow> nat \<times> string) \<Rightarrow> File list \<Rightarrow> state \<Rightarrow> state \<times> event list" where
  "handleFiles env clock fileList s =
     (let s0 = s\<lparr>successMessage_hidden := True\<rparr>;
          newFiles = filter isPdf fileList
      in if length newFiles = 0 \<and> length fileList > 0 then (s0, [Alert MAX_FILES_MSG])
         else (let (s1, evs) = addFiles env clock 0 newFiles s0 in (updateUI s1, evs)))"

subsection \<open>Removing and reordering\<close>

definition removeFile :: "string \<Rightarrow> state \<Rightarrow> state" where
  "removeFile ident s = updateUI (s\<lparr>filesData := filter (\<lambda>f. id_e f \<noteq> ident) (filesData s)\<rparr>)"

definition clearAllFiles :: "state \<Rightarrow> state" where
  "clearAllFiles s = (updateUI (s\<lparr>filesData := []\<rparr>))\<lparr>successMessage_hidden := True\<rparr>"

text \<open>
  \<open>xs.splice(i, 1)\<close> and \<open>xs.splice(i, 0, x)\<close> for an index \<open>i \<ge> 0\<close>: past the end the
  first removes nothing and the second appends.
\<close>

definition splice_remove :: "nat \<Rightarrow> 'a list \<Rightarrow> 'a list" where
  "splice_remove i xs = take i xs @ drop (Suc i) xs"

definition splice_insert :: "nat \<Rightarrow> 'a \<Rightarrow> 'a list \<Rightarrow> 'a list" where
  "splice_insert i x xs = take i xs @ x # drop i xs"

text \<open>
  The \<open>drop\<close> listener of a list item. \<open>srcIndex\<close> and \<open>targetIndex\<close> are the
  \<open>data-index\<close> attributes of the dragged item and of the item dropped on, which
  \<open>renderFileList\<close> wrote from the positions in \<open>filesData\<close>; two items of one rendering
  are the same element exactly when their indices are equal, which is the test
  \<open>dragSrcEl !== this\<close>. For an index past the end \<open>filesData[srcIndex]\<close> is
  \<open>undefined\<close> and the array would hold a value that is no entry: the model gives
  \<open>None\<close> there.
\<close>

definition onDrop :: "nat \<Rightarrow> nat \<Rightarrow> state \<Rightarrow> state option" where
  "onDrop srcIndex targetIndex s =
     (if length (filesData s) \<le> srcIndex then None
      else if srcIndex \<noteq> targetIndex then
        (let header = filesData s ! srcIndex
         in Some (updateUI (s\<lparr>filesData :=
              splice_insert targetIndex header (splice_remove srcIndex (filesData s))\<rparr>)))
      else Some s)"

subsection \<open>Merging\<close>

text \<open>
  A pdf-lib document is its sequence of pages. \<open>getPageIndices\<close> lists the indices
  of a document, \<open>copyPages\<close> returns the pages at the given indices, in that order, and
  \<open>addPage\<close> puts a page after the last one.
\<close>

definition getPageIndices :: "page list \<Rightarrow> nat list" where
  "getPageIndices pdf = [0..<length pdf]"

definition copyPages :: "page list \<Rightarrow> nat list \<Rightarrow> page list" where
  "copyPages pdf indices = map (\<lambda>i. pdf ! i) indices"

definition addPage :: "page list \<Rightarrow> page \<Rightarrow> page list" where
  "addPage mergedPdf p = mergedPdf @ [p]"

text \<open>The loop \<open>for (const data of filesData)\<close> of \<open>mergePDFs\<close>.\<close>

fun mergeLoop :: "env \<Rightarrow> page list \<Rightarrow> entry list \<Rightarrow> (error + page list) \<times> event list" where
  "mergeLoop env mergedPdf [] = (Inr mergedPdf, [])"
| "mergeLoop env mergedPdf (d # ds) =
     (case arrayBuffer env (file_e d) of
        Inl e \<Rightarrow> (Inl e, [ReadFile (file_e d)])
      | Inr buf \<Rightarrow>
          (case load env buf of
             Inl e \<Rightarrow> (Inl e, [ReadFile (file_e d), Load (file_e d)])
           | Inr pdf \<Rightarrow>
               (let copiedPages = copyPages pdf (getPageIndices pdf);
                    (r, evs) = mergeLoop env (foldl addPage mergedPdf copiedPages) ds
                in (r, ReadFile (file_e d) # Load (file_e d) # evs))))"

text \<open>The body of the \<open>try\<close> block, up to \<open>mergedPdf.save()\<close>.\<close>

definition mergeTry :: "env \<Rightarrow> entry list \<Rightarrow> (error + bytes) \<times> event list" where
  "mergeTry env fd =
     (if \<not> PDFLib env then
        (Inl (Error ''PDF-LIB library not loaded. Please check your internet connection.''), [])
      else
        (case mergeLoop env [] fd of
           (Inl e, evs) \<Rightarrow> (Inl e, evs)
         | (Inr mergedPdf, evs) \<Rightarrow> (save env mergedPdf, evs)))"

definition mergePDFs :: "env \<Rightarrow> state \<Rightarrow> state \<times> event list" where
  "mergePDFs env s =
     (if length (filesData s) < 2 then (s, [])
      else
        (let originalBtnText = mergeBtn_innerText s;
             s1 = s\<lparr>mergeBtn_innerText := ''Merging...'', mergeBtn_disabled := True\<rparr>;
             (r, evs) = mergeTry env (filesData s1);
             (s2, evs2) =
               (case r of
                  Inr pdfBytes \<Rightarrow>
                    (s1\<lparr>successMessage_hidden := False\<rparr>,
                     evs @ [Download pdfBytes ''merged-document.pdf''])
                | Inl e \<Rightarrow>
                    (s1, evs @ [ConsoleError ''Merge failed:'' e,
                                Alert (''An error occurred while merging PDFs: '' @ message e)]))
         in (s2\<lparr>mergeBtn_innerText := originalBtnText, mergeBtn_disabled := False\<rparr>, evs2)))"

subsection \<open>What the statements below speak of\<close>

text \<open>
  \<open>pagesOf env d\<close> is the page sequence pdf-lib loads from the bytes of the file of
  entry \<open>d\<close>, or the error of the read or of the load; \<open>entryEvents env d\<close> are the
  calls the loop of \<open>mergePDFs\<close> makes for \<open>d\<close>.
\<close>

definition pagesOf :: "env \<Rightarrow> entry \<Rightarrow> error + page list" where
  "pagesOf env d = (case arrayBuffer env (file_e d) of Inl e \<Rightarrow> Inl e | Inr buf \<Rightarrow> load env buf)"

definition entryEvents :: "env \<Rightarrow> entry \<Rightarrow> event list" where
  "entryEvents env d =
     (case arrayBuffer env (file_e d) of
        Inl e \<Rightarrow> [ReadFile (file_e d)]
      | Inr buf \<Rightarrow> [ReadFile (file_e d), Load (file_e d)])"

text \<open>
  \<open>decodes env f\<close>: the read of \<open>f\<close> and the decoding of its bytes by pdf.js both
  succeed. \<open>accepted env f\<close>: \<open>f\<close> passes the type filter of \<open>handleFiles\<close> and decodes.
  \<open>readFiles evs\<close> are the files read, in the order of the reads.
\<close>

definition decodes :: "env \<Rightarrow> File \<Rightarrow> bool" where
  "decodes env f =
     (case arrayBuffer env f of
        Inl e \<Rightarrow> False
      | Inr data \<Rightarrow> (case getDocument env data of Inl e \<Rightarrow> False | Inr doc \<Rightarrow> True))"

definition accepted :: "env \<Rightarrow> File \<Rightarrow> bool" where
  "accepted env f = (isPdf f \<and> decodes env f)"

fun readFiles :: "event list \<Rightarrow> File list" where
  "readFiles [] = []"
| "readFiles (ReadFile f # evs) = f # readFiles evs"
| "readFiles (ev # evs) = readFiles evs"

text \<open>
  \<open>fileEvents env f\<close> are the events of one call of \<open>addFile\<close> on \<open>f\<close>, from its
  read to its last statement: the read, the decoding when the read succeeded, and then
  either the log and alert of the failure or what \<open>generateThumbnail\<close> logged.
\<close>

definition fileEvents :: "env \<Rightarrow> File \<Rightarrow> event list" where
  "fileEvents env f =
     (case arrayBuffer env f of
        Inl e \<Rightarrow> ReadFile f # loadFailed f e
      | Inr data \<Rightarrow>
          (case getDocument env data of
             Inl e \<Rightarrow> ReadFile f # Decode f # loadFailed f e
           | Inr doc \<Rightarrow> ReadFile f # Decode f # snd (generateThumbnail doc)))"

text \<open>
  The operations on the set, as the user triggers them: adding one file (a batch of
  one handed to \<open>handleFiles\<close>, with the clock and random readings of that call), the
  remove button of an entry, and a drop of the item at one index on the item at another.
  \<open>run\<close> applies a sequence of them; \<open>generated\<close> lists the identifiers that the adds of
  the sequence computed.
\<close>

datatype op = Add File nat string | Remove string | MoveTo nat nat

fun step :: "env \<Rightarrow> op \<Rightarrow> state \<Rightarrow> state option" where
  "step env (Add f now rand36) s = Some (fst (handleFiles env (\<lambda>k. (now, rand36)) [f] s))"
| "step env (Remove ident) s = Some (removeFile ident s)"
| "step env (MoveTo srcIndex targetIndex) s = onDrop srcIndex targetIndex s"

fun run :: "env \<Rightarrow> op list \<Rightarrow> state \<Rightarrow> state option" where
  "run env [] s = Some s"
| "run env (x # xs) s = (case step env x s of None \<Rightarrow> None | Some s1 \<Rightarrow> run env xs s1)"

fun generated :: "op list \<Rightarrow> string list" where
  "generated [] = []"
| "generated (Add f now rand36 # xs) = newId now rand36 # generated xs"
| "generated (x # xs) = generated xs"

text \<open>The identifiers of the entries of the set, in order.\<close>

definition ids :: "state \<Rightarrow> string list" where
  "ids s = map id_e (filesData s)"

subsection \<open>A concrete environment\<close>

text \<open>
  Files and library answers for the examples: \<open>a.pdf\<close> has two pages and \<open>b.pdf\<close>
  three; pdf.js cannot decode \<open>bad.pdf\<close>; \<open>locked.pdf\<close> decodes in pdf.js but
  pdf-lib refuses to load it; \<open>notes.txt\<close> is no PDF. The bytes of a file are stood
  for by its size. \<open>mkEntry i f\<close> is the entry \<open>addFile\<close> pushes for \<open>f\<close> when the
  identifier is \<open>i\<close>, and \<open>st fd\<close> the state with the entries \<open>fd\<close> after \<open>updateUI\<close>.
\<close>

definition a_pdf :: File where
  "a_pdf = \<lparr>type_f = ''application/pdf'', name_f = ''a.pdf'', size_f = 2\<rparr>"

definition b_pdf :: File where
  "b_pdf = \<lparr>type_f = ''application/pdf'', name_f = ''b.pdf'', size_f = 3\<rparr>"

definition bad_pdf :: File where
  "bad_pdf = \<lparr>type_f = ''application/pdf'', name_f = ''bad.pdf'', size_f = 0\<rparr>"

definition locked_pdf :: File where
  "locked_pdf = \<lparr>type_f = ''application/pdf'', name_f = ''locked.pdf'', size_f = 4\<rparr>"

definition notes_txt :: File where
  "notes_txt = \<lparr>type_f = ''text/plain'', name_f = ''notes.txt'', size_f = 7\<rparr>"

definition env0 :: env where
  "env0 =
     \<lparr>arrayBuffer = (\<lambda>f. Inr [size_f f]),
      getDocument = (\<lambda>b. if b = [0] then Inl (Error ''Invalid PDF structure.'')
                          else Inr \<lparr>numPages = sum_list b, firstPage = Inr ''data:image/png''\<rparr>),
      formatSize = (\<lambda>n. toString n @ '' B''),
      PDFLib = True,
      load = (\<lambda>b. if b = [2] then Inr [''a1'', ''a2'']
                   else if b = [3] then Inr [''b1'', ''b2'', ''b3'']
                   else Inl (Error ''Input document is encrypted'')),
      save = (\<lambda>ps. Inr (map length ps))\<rparr>"

definition clock0 :: "nat \<Rightarrow> nat \<times> string" where
  "clock0 k = (1700000000000 + k, ''0.4fzyo82mvyr'')"

definition ops0 :: "op list" where
  "ops0 = [Add a_pdf 1700000000000 ''0.4fzyo82mvyr'', Add b_pdf 1700000000001 ''0.9k3x0q1zzab'',
           Add notes_txt 1700000000002 ''0.xyz'', MoveTo 1 0, Remove ''17000000000004fzyo82mv'']"

definition mkEntry :: "string \<Rightarrow> File \<Rightarrow> entry" where
  "mkEntry i f =
     \<lparr>id_e = i, file_e = f, name_e = name_f f, size_e = toString (size_f f) @ '' B'',
      sizeBytes = size_f f, pageCount = size_f f, thumbnail = ''data:image/png'',
      pdfData = [size_f f]\<rparr>"

definition st :: "entry list \<Rightarrow> state" where
  "st fd =
     \<lparr>filesData = fd, mergeBtn_innerText = ''Merge PDFs'', mergeBtn_disabled = length fd < 2,
      clearBtn_hidden = (fd = []), successMessage_hidden = True\<rparr>"

section \<open>Properties\<close>

subsection \<open>The merge loop\<close>

lemma foldl_addPage: "foldl addPage m ps = m @ ps"
  by (induction ps arbitrary: m) (simp_all add: addPage_def)

lemma copyPages_all: "copyPages pdf (getPageIndices pdf) = pdf"
  by (simp add: copyPages_def getPageIndices_def map_nth)

lemma pagesOf_Inr:
  "pagesOf env d = Inr p \<Longrightarrow> \<exists>buf. arrayBuffer env (file_e d) = Inr buf \<and> load env buf = Inr p"
  by (auto simp: pagesOf_def split: sum.splits)

lemma entryEvents_ok:
  "pagesOf env d = Inr p \<Longrightarrow> entryEvents env d = [ReadFile (file_e d), Load (file_e d)]"
  by (auto simp: pagesOf_def entryEvents_def split: sum.splits)

lemma mergeLoop_step_ok:
  assumes "pagesOf env d = Inr p"
  shows "mergeLoop env m (d # ds) =
         (fst (mergeLoop env (m @ p) ds),
          ReadFile (file_e d) # Load (file_e d) # snd (mergeLoop env (m @ p) ds))"
proof -
  from assms obtain buf where "arrayBuffer env (file_e d) = Inr buf" "load env buf = Inr p"
    using pagesOf_Inr by blast
  then show ?thesis
    by (simp add: copyPages_all foldl_addPage split: prod.splits)
qed

lemma mergeLoop_step_fail:
  assumes "pagesOf env d = Inl e"
  shows "mergeLoop env m (d # ds) = (Inl e, entryEvents env d)"
  using assms by (auto simp: pagesOf_def entryEvents_def split: sum.splits)

lemma mergeLoop_ok:
  "\<forall>d\<in>set ds. pagesOf env d = Inr (pg d) \<Longrightarrow>
   mergeLoop env m ds =
     (Inr (m @ concat (map pg ds)),
      concat (map (\<lambda>d. [ReadFile (file_e d), Load (file_e d)]) ds))"
proof (induction ds arbitrary: m)
  case Nil
  show ?case by simp
next
  case (Cons d ds)
  have d: "pagesOf env d = Inr (pg d)" using Cons.prems by simp
  have rest: "\<forall>x\<in>set ds. pagesOf env x = Inr (pg x)" using Cons.prems by simp
  show ?case
    by (simp only: mergeLoop_step_ok [OF d] Cons.IH [OF rest]) simp
qed

lemma mergeLoop_fail:
  "k < length ds \<Longrightarrow> \<forall>d\<in>set (take k ds). \<exists>p. pagesOf env d = Inr p \<Longrightarrow>
   pagesOf env (ds ! k) = Inl e \<Longrightarrow>
   mergeLoop env m ds = (Inl e, concat (map (entryEvents env) (take (Suc k) ds)))"
proof (induction ds arbitrary: m k)
  case Nil
  then show ?case by simp
next
  case (Cons d ds)
  show ?case
  proof (cases k)
    case 0
    with Cons.prems have "pagesOf env d = Inl e" by simp
    then show ?thesis
      using 0 by (simp add: mergeLoop_step_fail del: mergeLoop.simps)
  next
    case (Suc j)
    with Cons.prems obtain p where p: "pagesOf env d = Inr p" by auto
    have "mergeLoop env (m @ p) ds = (Inl e, concat (map (entryEvents env) (take (Suc j) ds)))"
      using Cons.prems Suc by (intro Cons.IH) auto
    then show ?thesis
      using Suc by (simp add: mergeLoop_step_ok [OF p] entryEvents_ok [OF p] del: mergeLoop.simps)
  qed
qed

lemma pagesOf_a: "pagesOf env0 (mkEntry i a_pdf) = Inr [''a1'', ''a2'']"
  by (simp add: pagesOf_def env0_def mkEntry_def a_pdf_def)

lemma pagesOf_b: "pagesOf env0 (mkEntry i b_pdf) = Inr [''b1'', ''b2'', ''b3'']"
  by (simp add: pagesOf_def env0_def mkEntry_def b_pdf_def)

lemma pagesOf_locked: "pagesOf env0 (mkEntry i locked_pdf) = Inl (Error ''Input document is encrypted'')"
  by (simp add: pagesOf_def env0_def mkEntry_def locked_pdf_def)

lemma mergeTry_ok:
  assumes "PDFLib env" and "\<forall>d\<in>set fd. pagesOf env d = Inr (pg d)"
  shows "mergeTry env fd =
         (save env (concat (map pg fd)),
          concat (map (\<lambda>d. [ReadFile (file_e d), Load (file_e d)]) fd))"
  using assms by (simp add: mergeTry_def mergeLoop_ok [where pg = pg])

lemma mergeTry_fail:
  assumes "PDFLib env" and "k < length fd"
    and "\<forall>d\<in>set (take k fd). \<exists>p. pagesOf env d = Inr p"
    and "pagesOf env (fd ! k) = Inl e"
  shows "mergeTry env fd = (Inl e, concat (map (entryEvents env) (take (Suc k) fd)))"
  using assms by (simp add: mergeTry_def mergeLoop_fail [where k = k and e = e])

text \<open>
  C1. When every entry's file is read and loaded and the result is saved, \<open>mergePDFs\<close>
  reads and loads the entries one after the other in the order of \<open>filesData\<close>, the
  document handed to \<open>save\<close> holds the pages of the entries concatenated in that
  order, and the download is its serialisation. For two entries A, B the pages are
  those of A followed by those of B.
\<close>

theorem merge_concatenates_pages_in_order:
  assumes "2 \<le> length (filesData s)" and "PDFLib env"
    and "\<forall>d\<in>set (filesData s). pagesOf env d = Inr (pg d)"
    and "save env (concat (map pg (filesData s))) = Inr out"
  shows "mergeLoop env [] (filesData s) =
           (Inr (concat (map pg (filesData s))),
            concat (map (\<lambda>d. [ReadFile (file_e d), Load (file_e d)]) (filesData s)))
         \<and> snd (mergePDFs env s) =
             concat (map (\<lambda>d. [ReadFile (file_e d), Load (file_e d)]) (filesData s))
             @ [Download out ''merged-document.pdf'']"
proof -
  have loop: "mergeLoop env [] (filesData s) =
           (Inr (concat (map pg (filesData s))),
            concat (map (\<lambda>d. [ReadFile (file_e d), Load (file_e d)]) (filesData s)))"
    using mergeLoop_ok [OF assms(3), of "[]"] by simp
  have "mergeTry env (filesData s) =
         (Inr out, concat (map (\<lambda>d. [ReadFile (file_e d), Load (file_e d)]) (filesData s)))"
    using mergeTry_ok [OF assms(2,3)] assms(4) by simp
  then have "snd (mergePDFs env s) =
             concat (map (\<lambda>d. [ReadFile (file_e d), Load (file_e d)]) (filesData s))
             @ [Download out ''merged-document.pdf'']"
    using assms(1) by (simp add: mergePDFs_def)
  with loop show ?thesis by simp
qed

theorem merge_concatenates_pages_in_order_witness:
  "snd (mergePDFs env0 (st [mkEntry ''1a'' a_pdf, mkEntry ''2b'' b_pdf])) =
     [ReadFile a_pdf, Load a_pdf, ReadFile b_pdf, Load b_pdf,
      Download [2, 2, 2, 2, 2] ''merged-document.pdf'']
   \<and> fst (mergeLoop env0 [] [mkEntry ''1a'' a_pdf, mkEntry ''2b'' b_pdf]) =
       Inr ([''a1'', ''a2''] @ [''b1'', ''b2'', ''b3''])"
proof -
  let ?fd = "[mkEntry ''1a'' a_pdf, mkEntry ''2b'' b_pdf]"
  let ?pg = "\<lambda>d. if file_e d = a_pdf then [''a1'', ''a2''] else [''b1'', ''b2'', ''b3'']"
  have ne: "b_pdf \<noteq> a_pdf" by (simp add: a_pdf_def b_pdf_def)
  have fe: "file_e (mkEntry i f) = f" for i f by (simp add: mkEntry_def)
  have h1: "2 \<le> length (filesData (st ?fd))" by (simp add: st_def)
  have h2: "PDFLib env0" by (simp add: env0_def)
  have h3: "\<forall>d\<in>set (filesData (st ?fd)). pagesOf env0 d = Inr (?pg d)"
    by (simp add: st_def pagesOf_a pagesOf_b fe ne)
  have h4: "save env0 (concat (map ?pg (filesData (st ?fd)))) = Inr [2, 2, 2, 2, 2]"
    by (simp add: st_def env0_def fe ne)
  show ?thesis
    using merge_concatenates_pages_in_order [OF h1 h2 h3 h4]
    by (simp add: st_def fe ne)
qed

text \<open>
  C3, as the code has it. With fewer than two entries \<open>mergePDFs\<close> returns at its
  first statement: the state is the one it was called in and there is no event at all,
  so no file is read, no library is called, nothing is downloaded, and nothing is
  signalled either. What tells the user is the merge button, which \<open>updateButtons\<close>
  disables below two entries.
\<close>

theorem merge_below_two_entries_does_nothing:
  assumes "length (filesData s) < 2"
  shows "mergePDFs env s = (s, []) \<and> mergeBtn_disabled (updateButtons s)"
  using assms by (simp add: mergePDFs_def updateButtons_def)

theorem merge_below_two_entries_does_nothing_witness:
  "length (filesData (st [mkEntry ''1a'' a_pdf])) < 2
   \<and> mergePDFs env0 (st [mkEntry ''1a'' a_pdf]) = (st [mkEntry ''1a'' a_pdf], [])
   \<and> mergeBtn_disabled (updateButtons (st [mkEntry ''1a'' a_pdf]))"
proof -
  have h: "length (filesData (st [mkEntry ''1a'' a_pdf])) < 2" by (simp add: st_def)
  show ?thesis
    using h merge_below_two_entries_does_nothing [OF h, of env0] by simp
qed

text \<open>
  The claim C3 as written fails: on the empty set \<open>mergePDFs\<close> produces no event, hence
  no alert, no logged error, no signal of any kind.
\<close>

theorem merge_below_two_entries_signals_nothing:
  "filesData (st []) = [] \<and> snd (mergePDFs env0 (st [])) = []"
  by (simp add: st_def mergePDFs_def)

lemma entryEvents_no_Download: "Download b n \<notin> set (entryEvents env d)"
  by (simp add: entryEvents_def split: sum.splits)

lemma concat_entryEvents_no_Download: "Download b n \<notin> set (concat (map (entryEvents env) ds))"
  by (induction ds) (simp_all add: entryEvents_no_Download)

text \<open>
  C5, as the code has it. When the read or the load of the entry at position \<open>k\<close> fails
  with error \<open>e\<close> and the entries before it were processed, \<open>mergePDFs\<close> has worked on
  the entries up to \<open>k\<close> once each and on none after it, then logs \<open>e\<close> and alerts with
  the text of \<open>e\<close>: the alert holds the cause and nothing of the entry. Nothing is
  downloaded and the success message stays as it was.
\<close>

theorem merge_failure_aborts_with_cause:
  assumes "2 \<le> length (filesData s)" and "PDFLib env" and "k < length (filesData s)"
    and "\<forall>d\<in>set (take k (filesData s)). \<exists>p. pagesOf env d = Inr p"
    and "pagesOf env (filesData s ! k) = Inl e"
  shows "snd (mergePDFs env s) =
           concat (map (entryEvents env) (take (Suc k) (filesData s)))
           @ [ConsoleError ''Merge failed:'' e,
              Alert (''An error occurred while merging PDFs: '' @ message e)]
         \<and> (\<forall>b n. Download b n \<notin> set (snd (mergePDFs env s)))
         \<and> successMessage_hidden (fst (mergePDFs env s)) = successMessage_hidden s"
proof -
  have tr: "mergeTry env (filesData s) =
               (Inl e, concat (map (entryEvents env) (take (Suc k) (filesData s))))"
    using mergeTry_fail [OF assms(2,3,4,5)] .
  have evs: "snd (mergePDFs env s) =
           concat (map (entryEvents env) (take (Suc k) (filesData s)))
           @ [ConsoleError ''Merge failed:'' e,
              Alert (''An error occurred while merging PDFs: '' @ message e)]"
    using assms(1) tr by (simp add: mergePDFs_def)
  have nodl: "\<forall>b n. Download b n \<notin> set (snd (mergePDFs env s))"
    unfolding evs using concat_entryEvents_no_Download by simp
  have hid: "successMessage_hidden (fst (mergePDFs env s)) = successMessage_hidden s"
    using assms(1) tr by (simp add: mergePDFs_def)
  from evs nodl hid show ?thesis by blast
qed

theorem merge_failure_aborts_with_cause_witness:
  "snd (mergePDFs env0 (st [mkEntry ''1a'' a_pdf, mkEntry ''2x'' locked_pdf, mkEntry ''3b'' b_pdf])) =
     [ReadFile a_pdf, Load a_pdf, ReadFile locked_pdf, Load locked_pdf,
      ConsoleError ''Merge failed:'' (Error ''Input document is encrypted''),
      Alert ''An error occurred while merging PDFs: Input document is encrypted'']
   \<and> successMessage_hidden
       (fst (mergePDFs env0 (st [mkEntry ''1a'' a_pdf, mkEntry ''2x'' locked_pdf, mkEntry ''3b'' b_pdf])))"
proof -
  let ?fd = "[mkEntry ''1a'' a_pdf, mkEntry ''2x'' locked_pdf, mkEntry ''3b'' b_pdf]"
  have fe: "file_e (mkEntry i f) = f" for i f by (simp add: mkEntry_def)
  have ab: "arrayBuffer env0 f = Inr [size_f f]" for f by (simp add: env0_def)
  have h1: "2 \<le> length (filesData (st ?fd))" by (simp add: st_def)
  have h2: "PDFLib env0" by (simp add: env0_def)
  have h3: "1 < length (filesData (st ?fd))" by (simp add: st_def)
  have h4: "\<forall>d\<in>set (take 1 (filesData (st ?fd))). \<exists>p. pagesOf env0 d = Inr p"
    by (simp add: st_def pagesOf_a)
  have h5: "pagesOf env0 (filesData (st ?fd) ! 1) = Inl (Error ''Input document is encrypted'')"
    by (simp add: st_def pagesOf_locked)
  have ev: "concat (map (entryEvents env0) (take (Suc 1) (filesData (st ?fd)))) =
              [ReadFile a_pdf, Load a_pdf, ReadFile locked_pdf, Load locked_pdf]"
    by (simp add: st_def entryEvents_def fe ab)
  have hid: "successMessage_hidden (st ?fd)" by (simp add: st_def)
  show ?thesis
    using merge_failure_aborts_with_cause [OF h1 h2 h3 h4 h5] hid
    unfolding ev by simp
qed

text \<open>
  The claim C5 as written fails where it says that the signal carries the identifier
  of the failing entry: two sets whose failing entries have different identifiers
  produce the same events, and the alert names the cause only.
\<close>

theorem merge_failure_signal_without_entry_id:
  "id_e (mkEntry ''2x'' locked_pdf) \<noteq> id_e (mkEntry ''9z'' locked_pdf)
   \<and> snd (mergePDFs env0 (st [mkEntry ''1a'' a_pdf, mkEntry ''2x'' locked_pdf])) =
       [ReadFile a_pdf, Load a_pdf, ReadFile locked_pdf, Load locked_pdf,
        ConsoleError ''Merge failed:'' (Error ''Input document is encrypted''),
        Alert ''An error occurred while merging PDFs: Input document is encrypted'']
   \<and> snd (mergePDFs env0 (st [mkEntry ''1a'' a_pdf, mkEntry ''9z'' locked_pdf])) =
       [ReadFile a_pdf, Load a_pdf, ReadFile locked_pdf, Load locked_pdf,
        ConsoleError ''Merge failed:'' (Error ''Input document is encrypted''),
        Alert ''An error occurred while merging PDFs: Input document is encrypted'']"
  by (simp add: mergePDFs_def mergeTry_def st_def mkEntry_def env0_def a_pdf_def locked_pdf_def
      copyPages_all foldl_addPage)

text \<open>
  C7. \<open>mergePDFs\<close> leaves \<open>filesData\<close> as it found it: the same entries with the same
  fields in the same order, whether the merge was refused, succeeded or failed.
\<close>

theorem merge_keeps_filesData:
  "filesData (fst (mergePDFs env s)) = filesData s"
  by (simp add: mergePDFs_def Let_def split: prod.splits sum.splits)

subsection \<open>Adding\<close>

lemma addFile_rejected: "\<not> decodes env f \<Longrightarrow> fst (addFile env now r f s) = s"
  by (auto simp: addFile_def decodes_def Let_def split: sum.splits prod.splits)

lemma addFile_accepted:
  "decodes env f \<Longrightarrow>
   \<exists>d. fst (addFile env now r f s) = s\<lparr>filesData := filesData s @ [d]\<rparr>
        \<and> file_e d = f \<and> id_e d = newId now r"
  by (auto simp: addFile_def decodes_def Let_def split: sum.splits prod.splits)

lemma generateThumbnail_events:
  "snd (generateThumbnail doc) = [] \<or> (\<exists>e. snd (generateThumbnail doc) = [ConsoleError ''Error generating thumbnail'' e])"
  by (simp add: generateThumbnail_def split: sum.splits)

lemma addFile_events:
  "\<forall>ev\<in>set (snd (addFile env now r f s)).
     ev = ReadFile f \<or> ev = Decode f \<or> (\<exists>m e. ev = ConsoleError m e)
     \<or> ev = Alert (''Failed to load '' @ name_f f @ ''. It might be corrupted.'')"
  by (auto simp: addFile_def loadFailed_def generateThumbnail_def Let_def split: sum.splits prod.splits)

lemma readFiles_addFile: "readFiles (snd (addFile env now r f s)) = [f]"
  by (auto simp: addFile_def loadFailed_def generateThumbnail_def Let_def split: sum.splits prod.splits)

lemma readFiles_append: "readFiles (xs @ ys) = readFiles xs @ readFiles ys"
  by (induction xs rule: readFiles.induct) simp_all

lemma addFiles_Cons:
  "addFiles env clock k (f # fs) s =
     (fst (addFiles env clock (Suc k) fs (fst (addFile env (fst (clock k)) (snd (clock k)) f s))),
      snd (addFile env (fst (clock k)) (snd (clock k)) f s)
      @ snd (addFiles env clock (Suc k) fs (fst (addFile env (fst (clock k)) (snd (clock k)) f s))))"
  by (simp add: split_beta)

lemma addFiles_appends:
  "\<exists>new. fst (addFiles env clock k fs s) = s\<lparr>filesData := filesData s @ new\<rparr>
         \<and> map file_e new = filter (decodes env) fs"
proof (induction fs arbitrary: k s)
  case Nil
  show ?case by simp
next
  case (Cons f fs)
  let ?s1 = "fst (addFile env (fst (clock k)) (snd (clock k)) f s)"
  obtain new where new: "fst (addFiles env clock (Suc k) fs ?s1) = ?s1\<lparr>filesData := filesData ?s1 @ new\<rparr>"
      "map file_e new = filter (decodes env) fs"
    using Cons.IH by blast
  show ?case
  proof (cases "decodes env f")
    case True
    then obtain d where d: "?s1 = s\<lparr>filesData := filesData s @ [d]\<rparr>" "file_e d = f"
      using addFile_accepted by blast
    have "fst (addFiles env clock k (f # fs) s) = fst (addFiles env clock (Suc k) fs ?s1)"
      by (simp add: addFiles_Cons del: addFiles.simps)
    also have "\<dots> = ?s1\<lparr>filesData := filesData ?s1 @ new\<rparr>"
      by (rule new(1))
    also have "\<dots> = s\<lparr>filesData := filesData s @ (d # new)\<rparr>"
      by (simp add: d(1))
    finally have "fst (addFiles env clock k (f # fs) s) = s\<lparr>filesData := filesData s @ (d # new)\<rparr>" .
    moreover have "map file_e (d # new) = filter (decodes env) (f # fs)"
      using True d(2) new(2) by simp
    ultimately show ?thesis by blast
  next
    case False
    then have s1: "?s1 = s" by (rule addFile_rejected)
    have "fst (addFiles env clock k (f # fs) s) = fst (addFiles env clock (Suc k) fs ?s1)"
      by (simp add: addFiles_Cons del: addFiles.simps)
    also have "\<dots> = ?s1\<lparr>filesData := filesData ?s1 @ new\<rparr>"
      by (rule new(1))
    also have "\<dots> = s\<lparr>filesData := filesData s @ new\<rparr>"
      by (simp add: s1)
    finally have "fst (addFiles env clock k (f # fs) s) = s\<lparr>filesData := filesData s @ new\<rparr>" .
    moreover have "map file_e new = filter (decodes env) (f # fs)"
      using False new(2) by simp
    ultimately show ?thesis by blast
  qed
qed

lemma readFiles_addFiles: "readFiles (snd (addFiles env clock k fs s)) = fs"
  by (induction fs arbitrary: k s)
     (simp_all add: addFiles_Cons readFiles_append readFiles_addFile del: addFiles.simps(2))

lemma addFiles_events:
  "ev \<in> set (snd (addFiles env clock k fs s)) \<Longrightarrow>
     (\<exists>f\<in>set fs. ev = ReadFile f \<or> ev = Decode f
        \<or> ev = Alert (''Failed to load '' @ name_f f @ ''. It might be corrupted.''))
     \<or> (\<exists>m e. ev = ConsoleError m e)"
proof (induction fs arbitrary: k s)
  case Nil
  then show ?case by simp
next
  case (Cons f fs)
  let ?s1 = "fst (addFile env (fst (clock k)) (snd (clock k)) f s)"
  from Cons.prems consider
    "ev \<in> set (snd (addFile env (fst (clock k)) (snd (clock k)) f s))"
    | "ev \<in> set (snd (addFiles env clock (Suc k) fs ?s1))"
    by (auto simp add: addFiles_Cons simp del: addFiles.simps(2))
  then show ?case
  proof cases
    case 1
    then show ?thesis using addFile_events [of env "fst (clock k)" "snd (clock k)" f s] by auto
  next
    case 2
    then show ?thesis using Cons.IH by fastforce
  qed
qed

lemma handleFiles_filesData:
  "filesData (fst (handleFiles env clock fl s)) =
   filesData (fst (addFiles env clock 0 (filter isPdf fl) (s\<lparr>successMessage_hidden := True\<rparr>)))"
  by (simp add: handleFiles_def Let_def updateUI_def updateButtons_def split: prod.splits)

lemma handleFiles_events:
  "snd (handleFiles env clock fl s) =
     (if filter isPdf fl = [] \<and> fl \<noteq> [] then [Alert MAX_FILES_MSG]
      else snd (addFiles env clock 0 (filter isPdf fl) (s\<lparr>successMessage_hidden := True\<rparr>)))"
  by (simp add: handleFiles_def Let_def split: prod.splits)

lemma filter_accepted: "filter (decodes env) (filter isPdf fl) = filter (accepted env) fl"
  by (induction fl) (simp_all add: accepted_def)

lemma handleFiles_appends:
  "\<exists>new. filesData (fst (handleFiles env clock fl s)) = filesData s @ new
         \<and> map file_e new = filter (accepted env) fl"
proof -
  let ?s0 = "s\<lparr>successMessage_hidden := True\<rparr>"
  obtain new where
    a: "fst (addFiles env clock 0 (filter isPdf fl) ?s0) = ?s0\<lparr>filesData := filesData ?s0 @ new\<rparr>"
    and b: "map file_e new = filter (decodes env) (filter isPdf fl)"
    using addFiles_appends by blast
  have "map file_e new = filter (accepted env) fl"
    using b by (simp only: filter_accepted)
  moreover have "filesData (fst (handleFiles env clock fl s)) = filesData s @ new"
    by (simp add: handleFiles_filesData a)
  ultimately show ?thesis by blast
qed

lemma addFile_snd: "snd (addFile env now r f s) = fileEvents env f"
  by (simp add: addFile_def fileEvents_def Let_def split: sum.splits prod.splits)

lemma addFiles_snd: "snd (addFiles env clock k fs s) = concat (map (fileEvents env) fs)"
  by (induction fs arbitrary: k s)
     (simp_all add: addFiles_Cons addFile_snd del: addFiles.simps(2))

lemma addFiles_fst_append:
  "fst (addFiles env clock k (xs @ ys) s) =
   fst (addFiles env clock (k + length xs) ys (fst (addFiles env clock k xs s)))"
  by (induction xs arbitrary: k s)
     (simp_all add: addFiles_Cons del: addFiles.simps(2))

lemma addFiles_split:
  "\<exists>old later.
     filesData (fst (addFiles env clock 0 xs s0)) = filesData s0 @ old
     \<and> map file_e old = filter (decodes env) xs
     \<and> filesData (fst (addFiles env clock 0 (xs @ f # ys) s0))
         = filesData (fst (addFile env (fst (clock (length xs))) (snd (clock (length xs))) f
             (fst (addFiles env clock 0 xs s0)))) @ later
     \<and> map file_e later = filter (decodes env) ys"
proof -
  let ?before = "fst (addFiles env clock 0 xs s0)"
  let ?mid = "fst (addFile env (fst (clock (length xs))) (snd (clock (length xs))) f ?before)"
  obtain old where old: "?before = s0\<lparr>filesData := filesData s0 @ old\<rparr>"
      "map file_e old = filter (decodes env) xs"
    using addFiles_appends by blast
  obtain later where later:
      "fst (addFiles env clock (Suc (length xs)) ys ?mid) = ?mid\<lparr>filesData := filesData ?mid @ later\<rparr>"
      "map file_e later = filter (decodes env) ys"
    using addFiles_appends by blast
  have "fst (addFiles env clock 0 (xs @ f # ys) s0) = fst (addFiles env clock (length xs) (f # ys) ?before)"
    by (simp add: addFiles_fst_append del: addFiles.simps(2))
  also have "\<dots> = fst (addFiles env clock (Suc (length xs)) ys ?mid)"
    by (simp add: addFiles_Cons del: addFiles.simps(2))
  finally have "filesData (fst (addFiles env clock 0 (xs @ f # ys) s0)) = filesData ?mid @ later"
    by (simp add: later(1))
  moreover have "filesData ?before = filesData s0 @ old"
    by (simp add: old(1))
  ultimately show ?thesis using old(2) later(2) by blast
qed

lemma toString_digit: "n < 10 \<Longrightarrow> toString n = [digit n]"
  by (simp add: toString.simps)

lemma toString_more: "10 \<le> n \<Longrightarrow> toString n = toString (n div 10) @ [digit (n mod 10)]"
  by (subst toString.simps) simp

text \<open>
  C10. \<open>handleFiles\<close> works on the PDF files of a batch one at a time, in the order
  of the input list. The events of the batch are the events of the first file, from
  its read to the end of its \<open>addFile\<close>, then those of the second, and so on: no read
  or decoding of a file comes before the last event of the file in front of it. The
  call of \<open>addFile\<close> for a file starts in the state in which the entries of the files
  in front of it that decoded are already appended, in their order, and what that call
  leaves in \<open>filesData\<close> stays in front of the entries of the files behind it. So
  the appended entries are those of the files that decoded, in the order of the input
  list.
\<close>

theorem batch_adds_in_input_order:
  "snd (handleFiles env clock fl s) =
     (if filter isPdf fl = [] \<and> fl \<noteq> [] then [Alert MAX_FILES_MSG]
      else concat (map (fileEvents env) (filter isPdf fl)))
   \<and> (\<exists>new. filesData (fst (handleFiles env clock fl s)) = filesData s @ new
          \<and> map file_e new = filter (accepted env) fl)
   \<and> readFiles (snd (handleFiles env clock fl s)) = filter isPdf fl
   \<and> (\<forall>xs f ys. filter isPdf fl = xs @ f # ys \<longrightarrow>
        (\<exists>old later.
           filesData (fst (addFiles env clock 0 xs (s\<lparr>successMessage_hidden := True\<rparr>)))
             = filesData s @ old
           \<and> map file_e old = filter (decodes env) xs
           \<and> filesData (fst (handleFiles env clock fl s))
             = filesData (fst (addFile env (fst (clock (length xs))) (snd (clock (length xs))) f
                 (fst (addFiles env clock 0 xs (s\<lparr>successMessage_hidden := True\<rparr>)))))
               @ later
           \<and> map file_e later = filter (decodes env) ys))"
proof -
  have a: "snd (handleFiles env clock fl s) =
     (if filter isPdf fl = [] \<and> fl \<noteq> [] then [Alert MAX_FILES_MSG]
      else concat (map (fileEvents env) (filter isPdf fl)))"
    by (simp add: handleFiles_events addFiles_snd)
  have b: "\<exists>new. filesData (fst (handleFiles env clock fl s)) = filesData s @ new
          \<and> map file_e new = filter (accepted env) fl"
    by (rule handleFiles_appends)
  have c: "readFiles (snd (handleFiles env clock fl s)) = filter isPdf fl"
    by (simp add: handleFiles_events readFiles_addFiles MAX_FILES_MSG_def)
  have d: "\<exists>old later.
           filesData (fst (addFiles env clock 0 xs (s\<lparr>successMessage_hidden := True\<rparr>)))
             = filesData s @ old
           \<and> map file_e old = filter (decodes env) xs
           \<and> filesData (fst (handleFiles env clock fl s))
             = filesData (fst (addFile env (fst (clock (length xs))) (snd (clock (length xs))) f
                 (fst (addFiles env clock 0 xs (s\<lparr>successMessage_hidden := True\<rparr>)))))
               @ later
           \<and> map file_e later = filter (decodes env) ys"
    if "filter isPdf fl = xs @ f # ys" for xs f ys
    using addFiles_split [of env clock xs "s\<lparr>successMessage_hidden := True\<rparr>" f ys]
    by (simp add: handleFiles_filesData that)
  from a b c d show ?thesis by blast
qed

lemma isPdf_simps:
  "isPdf a_pdf" "isPdf b_pdf" "isPdf bad_pdf" "\<not> isPdf notes_txt"
  by (simp_all add: isPdf_def a_pdf_def b_pdf_def bad_pdf_def notes_txt_def)

lemma decodes_simps:
  "decodes env0 a_pdf" "decodes env0 b_pdf" "\<not> decodes env0 bad_pdf"
  by (simp_all add: decodes_def env0_def a_pdf_def b_pdf_def bad_pdf_def)

lemma accepted_simps:
  "accepted env0 a_pdf" "accepted env0 b_pdf" "\<not> accepted env0 bad_pdf" "\<not> accepted env0 notes_txt"
  by (simp_all add: accepted_def isPdf_simps decodes_simps)

lemma fileEvents_simps:
  "fileEvents env0 a_pdf = [ReadFile a_pdf, Decode a_pdf]"
  "fileEvents env0 b_pdf = [ReadFile b_pdf, Decode b_pdf]"
  "fileEvents env0 bad_pdf =
     [ReadFile bad_pdf, Decode bad_pdf,
      ConsoleError ''Error loading PDF:'' (Error ''Invalid PDF structure.''),
      Alert ''Failed to load bad.pdf. It might be corrupted.'']"
  by (simp_all add: fileEvents_def env0_def generateThumbnail_def loadFailed_def
      a_pdf_def b_pdf_def bad_pdf_def)

theorem batch_adds_in_input_order_witness:
  "snd (handleFiles env0 clock0 [b_pdf, notes_txt, bad_pdf, a_pdf] (st [])) =
     [ReadFile b_pdf, Decode b_pdf,
      ReadFile bad_pdf, Decode bad_pdf,
      ConsoleError ''Error loading PDF:'' (Error ''Invalid PDF structure.''),
      Alert ''Failed to load bad.pdf. It might be corrupted.'',
      ReadFile a_pdf, Decode a_pdf]
   \<and> map file_e (filesData (fst (handleFiles env0 clock0 [b_pdf, notes_txt, bad_pdf, a_pdf] (st []))))
     = [b_pdf, a_pdf]
   \<and> filter isPdf [b_pdf, notes_txt, bad_pdf, a_pdf] = [b_pdf, bad_pdf] @ a_pdf # []
   \<and> map file_e (filesData (fst (addFiles env0 clock0 0 [b_pdf, bad_pdf]
         ((st [])\<lparr>successMessage_hidden := True\<rparr>))))
     = [b_pdf]"
proof -
  let ?fl = "[b_pdf, notes_txt, bad_pdf, a_pdf]"
  have h: "filter isPdf ?fl = [b_pdf, bad_pdf] @ a_pdf # []"
    by (simp add: isPdf_simps)
  have fd: "filesData (st []) = []" by (simp add: st_def)
  note t = batch_adds_in_input_order [of env0 clock0 ?fl "st []"]
  from t have "snd (handleFiles env0 clock0 ?fl (st [])) =
     (if filter isPdf ?fl = [] \<and> ?fl \<noteq> [] then [Alert MAX_FILES_MSG]
      else concat (map (fileEvents env0) (filter isPdf ?fl)))"
    by (rule conjunct1)
  then have tr: "snd (handleFiles env0 clock0 ?fl (st [])) =
     [ReadFile b_pdf, Decode b_pdf,
      ReadFile bad_pdf, Decode bad_pdf,
      ConsoleError ''Error loading PDF:'' (Error ''Invalid PDF structure.''),
      Alert ''Failed to load bad.pdf. It might be corrupted.'',
      ReadFile a_pdf, Decode a_pdf]"
    by (simp add: isPdf_simps fileEvents_simps)
  from t obtain new where
    "filesData (fst (handleFiles env0 clock0 ?fl (st []))) = filesData (st []) @ new"
    "map file_e new = filter (accepted env0) ?fl"
    by blast
  then have en: "map file_e (filesData (fst (handleFiles env0 clock0 ?fl (st [])))) = [b_pdf, a_pdf]"
    by (simp add: fd accepted_simps)
  from t have "\<forall>xs f ys. filter isPdf ?fl = xs @ f # ys \<longrightarrow>
        (\<exists>old later.
           filesData (fst (addFiles env0 clock0 0 xs ((st [])\<lparr>successMessage_hidden := True\<rparr>)))
             = filesData (st []) @ old
           \<and> map file_e old = filter (decodes env0) xs
           \<and> filesData (fst (handleFiles env0 clock0 ?fl (st [])))
             = filesData (fst (addFile env0 (fst (clock0 (length xs))) (snd (clock0 (length xs))) f
                 (fst (addFiles env0 clock0 0 xs ((st [])\<lparr>successMessage_hidden := True\<rparr>)))))
               @ later
           \<and> map file_e later = filter (decodes env0) ys)"
    by blast
  with h obtain old where
    "filesData (fst (addFiles env0 clock0 0 [b_pdf, bad_pdf] ((st [])\<lparr>successMessage_hidden := True\<rparr>)))
       = filesData (st []) @ old"
    "map file_e old = filter (decodes env0) [b_pdf, bad_pdf]"
    by blast
  then have bf: "map file_e (filesData (fst (addFiles env0 clock0 0 [b_pdf, bad_pdf]
         ((st [])\<lparr>successMessage_hidden := True\<rparr>)))) = [b_pdf]"
    by (simp add: fd decodes_simps)
  from tr en h bf show ?thesis by blast
qed

text \<open>
  C6. An add of a file that is not a PDF by its type, or whose read or decoding fails,
  leaves \<open>filesData\<close> exactly as it was. In any batch the entries that were there
  before stay in front, unchanged and in their order, and no entry for the rejected
  file is among the appended ones.
\<close>

theorem failed_add_leaves_set:
  assumes "\<not> accepted env x"
  shows "filesData (fst (handleFiles env clock [x] s)) = filesData s
         \<and> (\<exists>new. filesData (fst (handleFiles env clock fl s)) = filesData s @ new
                  \<and> x \<notin> file_e ` set new)"
proof -
  obtain n1 where n1: "filesData (fst (handleFiles env clock [x] s)) = filesData s @ n1"
      "map file_e n1 = filter (accepted env) [x]"
    using handleFiles_appends by blast
  from n1(2) assms have "n1 = []" by simp
  with n1(1) have one: "filesData (fst (handleFiles env clock [x] s)) = filesData s" by simp
  obtain new where new: "filesData (fst (handleFiles env clock fl s)) = filesData s @ new"
      "map file_e new = filter (accepted env) fl"
    using handleFiles_appends by blast
  have "set (map file_e new) = {f \<in> set fl. accepted env f}"
    unfolding new(2) by simp
  with assms have "x \<notin> file_e ` set new" by auto
  with one new(1) show ?thesis by blast
qed

theorem failed_add_leaves_set_witness:
  "\<not> accepted env0 bad_pdf
   \<and> filesData (fst (handleFiles env0 clock0 [bad_pdf] (st [mkEntry ''1a'' a_pdf])))
       = [mkEntry ''1a'' a_pdf]
   \<and> take 1 (filesData (fst (handleFiles env0 clock0 [bad_pdf, b_pdf] (st [mkEntry ''1a'' a_pdf]))))
       = [mkEntry ''1a'' a_pdf]"
  using failed_add_leaves_set [of env0 bad_pdf clock0 "st [mkEntry ''1a'' a_pdf]" "[bad_pdf, b_pdf]"]
  by (auto simp: accepted_simps st_def)

text \<open>
  C4, as the code has it. A file whose type is not \<open>application/pdf\<close> is dropped by
  the filter of \<open>handleFiles\<close> before \<open>addFile\<close>: it is never read and never decoded,
  and \<open>filesData\<close> ends as if the file had not been in the batch. The alert
  \<open>Only PDF files are accepted.\<close> is raised exactly when the batch is not empty and
  holds no PDF file at all.
\<close>

theorem non_pdf_never_reaches_decoder:
  assumes "\<not> isPdf x"
  shows "ReadFile x \<notin> set (snd (handleFiles env clock fl s))
         \<and> Decode x \<notin> set (snd (handleFiles env clock fl s))
         \<and> filesData (fst (handleFiles env clock fl s))
             = filesData (fst (handleFiles env clock (removeAll x fl) s))
         \<and> (Alert MAX_FILES_MSG \<in> set (snd (handleFiles env clock fl s))
              \<longleftrightarrow> fl \<noteq> [] \<and> filter isPdf fl = [])"
proof -
  let ?s0 = "s\<lparr>successMessage_hidden := True\<rparr>"
  let ?evs = "snd (addFiles env clock 0 (filter isPdf fl) ?s0)"
  have r: "ReadFile x \<notin> set ?evs" and d: "Decode x \<notin> set ?evs"
    using addFiles_events [of _ env clock 0 "filter isPdf fl" ?s0] assms by auto
  have a: "Alert MAX_FILES_MSG \<notin> set ?evs"
    using addFiles_events [of "Alert MAX_FILES_MSG" env clock 0 "filter isPdf fl" ?s0]
    by (auto simp: MAX_FILES_MSG_def)
  have c1: "ReadFile x \<notin> set (snd (handleFiles env clock fl s))"
    using r by (simp add: handleFiles_events)
  have c2: "Decode x \<notin> set (snd (handleFiles env clock fl s))"
    using d by (simp add: handleFiles_events)
  have "filter isPdf (removeAll x fl) = filter isPdf fl"
    using assms by (induction fl) auto
  then have c3: "filesData (fst (handleFiles env clock fl s))
             = filesData (fst (handleFiles env clock (removeAll x fl) s))"
    by (simp add: handleFiles_filesData)
  have c4: "Alert MAX_FILES_MSG \<in> set (snd (handleFiles env clock fl s))
              \<longleftrightarrow> fl \<noteq> [] \<and> filter isPdf fl = []"
    using a by (auto simp: handleFiles_events)
  from c1 c2 c3 c4 show ?thesis by blast
qed

theorem non_pdf_never_reaches_decoder_witness:
  "\<not> isPdf notes_txt
   \<and> handleFiles env0 clock0 [notes_txt] (st [mkEntry ''1a'' a_pdf])
       = (st [mkEntry ''1a'' a_pdf], [Alert ''Only PDF files are accepted.''])
   \<and> ReadFile notes_txt \<notin> set (snd (handleFiles env0 clock0 [notes_txt, a_pdf] (st [])))
   \<and> Decode notes_txt \<notin> set (snd (handleFiles env0 clock0 [notes_txt, a_pdf] (st [])))"
proof -
  have h: "\<not> isPdf notes_txt" by (simp add: isPdf_simps)
  have one: "handleFiles env0 clock0 [notes_txt] (st [mkEntry ''1a'' a_pdf])
       = (st [mkEntry ''1a'' a_pdf], [Alert ''Only PDF files are accepted.''])"
    by (simp add: handleFiles_def isPdf_simps st_def MAX_FILES_MSG_def)
  show ?thesis
    using h one non_pdf_never_reaches_decoder [OF h, of env0 clock0 "[notes_txt, a_pdf]" "st []"]
    by simp
qed

text \<open>
  The claim C4 as written fails: in a batch that also holds a PDF file, the file that
  is not a PDF is dropped without any signal.
\<close>

theorem non_pdf_in_mixed_batch_is_silent:
  "\<not> isPdf notes_txt
   \<and> snd (handleFiles env0 clock0 [a_pdf, notes_txt] (st [])) = [ReadFile a_pdf, Decode a_pdf]"
  by (simp add: handleFiles_def isPdf_def notes_txt_def addFile_def env0_def
      generateThumbnail_def a_pdf_def Let_def)

subsection \<open>Removing\<close>

lemma removeFile_filesData:
  "filesData (removeFile i s) = filter (\<lambda>f. id_e f \<noteq> i) (filesData s)"
  by (simp add: removeFile_def updateUI_def updateButtons_def)

text \<open>
  C9. Removing the same identifier twice gives the state of removing it once; removing
  an identifier that no entry has leaves \<open>filesData\<close> as it was; \<open>removeFile\<close> returns a
  state and has no failing branch; and the entries that remain are those with another
  identifier, in the order they had.
\<close>

theorem remove_is_idempotent:
  "removeFile i (removeFile i s) = removeFile i s
   \<and> (i \<notin> id_e ` set (filesData s) \<longrightarrow> filesData (removeFile i s) = filesData s)
   \<and> subseq (filesData (removeFile i s)) (filesData s)
   \<and> set (filesData (removeFile i s)) = {d \<in> set (filesData s). id_e d \<noteq> i}"
proof -
  have a: "removeFile i (removeFile i s) = removeFile i s"
    by (simp add: removeFile_def updateUI_def updateButtons_def)
  have b: "i \<notin> id_e ` set (filesData s) \<longrightarrow> filesData (removeFile i s) = filesData s"
    by (auto simp: removeFile_filesData filter_id_conv)
  have c: "subseq (filesData (removeFile i s)) (filesData s)"
    by (simp add: removeFile_filesData)
  have d: "set (filesData (removeFile i s)) = {d \<in> set (filesData s). id_e d \<noteq> i}"
    by (simp add: removeFile_filesData)
  from a b c d show ?thesis by blast
qed

theorem remove_is_idempotent_witness:
  "filesData (removeFile ''1a'' (st [mkEntry ''1a'' a_pdf, mkEntry ''2b'' b_pdf, mkEntry ''3a'' a_pdf]))
     = [mkEntry ''2b'' b_pdf, mkEntry ''3a'' a_pdf]
   \<and> filesData (removeFile ''1a'' (removeFile ''1a''
        (st [mkEntry ''1a'' a_pdf, mkEntry ''2b'' b_pdf, mkEntry ''3a'' a_pdf])))
     = [mkEntry ''2b'' b_pdf, mkEntry ''3a'' a_pdf]
   \<and> ''9z'' \<notin> id_e ` set (filesData (st [mkEntry ''1a'' a_pdf, mkEntry ''2b'' b_pdf]))
   \<and> filesData (removeFile ''9z'' (st [mkEntry ''1a'' a_pdf, mkEntry ''2b'' b_pdf]))
     = [mkEntry ''1a'' a_pdf, mkEntry ''2b'' b_pdf]"
proof -
  let ?s3 = "st [mkEntry ''1a'' a_pdf, mkEntry ''2b'' b_pdf, mkEntry ''3a'' a_pdf]"
  let ?s2 = "st [mkEntry ''1a'' a_pdf, mkEntry ''2b'' b_pdf]"
  have ie: "id_e (mkEntry i f) = i" for i f by (simp add: mkEntry_def)
  have one: "filesData (removeFile ''1a'' ?s3) = [mkEntry ''2b'' b_pdf, mkEntry ''3a'' a_pdf]"
    by (simp add: removeFile_filesData st_def ie)
  have absent: "''9z'' \<notin> id_e ` set (filesData ?s2)"
    by (simp add: st_def ie)
  have fd2: "filesData ?s2 = [mkEntry ''1a'' a_pdf, mkEntry ''2b'' b_pdf]"
    by (simp add: st_def)
  show ?thesis
    using remove_is_idempotent [of "''1a''" ?s3] remove_is_idempotent [of "''9z''" ?s2]
      one absent fd2
    by simp
qed

subsection \<open>Reordering\<close>

lemma mset_splice_remove:
  "i < length xs \<Longrightarrow> add_mset (xs ! i) (mset (splice_remove i xs)) = mset xs"
proof -
  assume "i < length xs"
  then have "xs = take i xs @ xs ! i # drop (Suc i) xs"
    by (rule id_take_nth_drop)
  then have "mset xs = mset (take i xs @ xs ! i # drop (Suc i) xs)"
    by simp
  then show ?thesis
    by (simp add: splice_remove_def)
qed

lemma mset_splice_insert: "mset (splice_insert i x xs) = add_mset x (mset xs)"
proof -
  have "mset (take i xs) + mset (drop i xs) = mset xs"
    by (metis append_take_drop_id mset_append)
  then show ?thesis
    by (simp add: splice_insert_def)
qed

lemma onDrop_in_range:
  assumes "srcIndex < length (filesData s)"
  shows "\<exists>s'. onDrop srcIndex targetIndex s = Some s' \<and> mset (filesData s') = mset (filesData s)"
  using assms
  by (simp add: onDrop_def Let_def updateUI_def updateButtons_def mset_splice_insert
      mset_splice_remove)

lemma onDrop_Some:
  "onDrop srcIndex targetIndex s = Some s' \<Longrightarrow> mset (filesData s') = mset (filesData s)"
  using onDrop_in_range [of srcIndex s targetIndex]
  by (cases "srcIndex < length (filesData s)") (auto simp: onDrop_def)

text \<open>
  C8. A drop of the item at a position of the list on another item keeps the multiset
  of entries: the same entries, only their order may differ. From \<open>[A, B, C]\<close>,
  dropping the item at index 2 on the item at index 0 gives \<open>[C, A, B]\<close>.
\<close>

theorem move_preserves_entries:
  assumes "srcIndex < length (filesData s)"
  shows "(\<exists>s'. onDrop srcIndex targetIndex s = Some s' \<and> mset (filesData s') = mset (filesData s))
         \<and> (filesData s = [A, B, C] \<longrightarrow> map_option filesData (onDrop 2 0 s) = Some [C, A, B])"
proof -
  have "filesData s = [A, B, C] \<longrightarrow> map_option filesData (onDrop 2 0 s) = Some [C, A, B]"
    by (simp add: onDrop_def Let_def updateUI_def updateButtons_def splice_insert_def
        splice_remove_def)
  with onDrop_in_range [OF assms] show ?thesis by blast
qed

theorem move_preserves_entries_witness:
  "(2::nat) < length (filesData (st [mkEntry ''1a'' a_pdf, mkEntry ''2b'' b_pdf, mkEntry ''3c'' a_pdf]))
   \<and> map_option filesData
        (onDrop 2 0 (st [mkEntry ''1a'' a_pdf, mkEntry ''2b'' b_pdf, mkEntry ''3c'' a_pdf]))
     = Some [mkEntry ''3c'' a_pdf, mkEntry ''1a'' a_pdf, mkEntry ''2b'' b_pdf]"
proof -
  let ?s = "st [mkEntry ''1a'' a_pdf, mkEntry ''2b'' b_pdf, mkEntry ''3c'' a_pdf]"
  have h: "2 < length (filesData ?s)" by (simp add: st_def)
  have fd: "filesData ?s = [mkEntry ''1a'' a_pdf, mkEntry ''2b'' b_pdf, mkEntry ''3c'' a_pdf]"
    by (simp add: st_def)
  show ?thesis
    using h fd move_preserves_entries [OF h, of 0 "mkEntry ''1a'' a_pdf" "mkEntry ''2b'' b_pdf"
        "mkEntry ''3c'' a_pdf"]
    by simp
qed

subsection \<open>Identifiers\<close>

lemma handleFiles_single:
  "filesData (fst (handleFiles env (\<lambda>k. (now, r)) [f] s)) = filesData s
   \<or> (\<exists>d. filesData (fst (handleFiles env (\<lambda>k. (now, r)) [f] s)) = filesData s @ [d]
            \<and> id_e d = newId now r)"
proof (cases "isPdf f \<and> decodes env f")
  case True
  let ?s0 = "s\<lparr>successMessage_hidden := True\<rparr>"
  from True obtain d where
    "fst (addFile env now r f ?s0) = ?s0\<lparr>filesData := filesData ?s0 @ [d]\<rparr>" "id_e d = newId now r"
    using addFile_accepted by blast
  then show ?thesis
    using True by (auto simp: handleFiles_filesData split_beta)
next
  case False
  then have "\<not> accepted env f" by (simp add: accepted_def)
  moreover obtain new where "filesData (fst (handleFiles env (\<lambda>k. (now, r)) [f] s)) = filesData s @ new"
    "map file_e new = filter (accepted env) [f]"
    using handleFiles_appends by blast
  ultimately show ?thesis by simp
qed

lemma generated_Cons: "generated (x # xs) = generated [x] @ generated xs"
  by (cases x) simp_all

lemma step_ids:
  assumes "step env x s = Some s'" and "distinct (ids s)"
    and "set (generated [x]) \<inter> set (ids s) = {}"
  shows "distinct (ids s') \<and> set (ids s') \<subseteq> set (ids s) \<union> set (generated [x])"
proof (cases x)
  case (Add f now r)
  then have s': "s' = fst (handleFiles env (\<lambda>k. (now, r)) [f] s)"
    using assms(1) by simp
  have fresh: "newId now r \<notin> set (ids s)"
    using assms(3) Add by simp
  from handleFiles_single [of env now r f s] show ?thesis
  proof
    assume "filesData (fst (handleFiles env (\<lambda>k. (now, r)) [f] s)) = filesData s"
    then show ?thesis using assms(2) s' by (simp add: ids_def)
  next
    assume "\<exists>d. filesData (fst (handleFiles env (\<lambda>k. (now, r)) [f] s)) = filesData s @ [d]
            \<and> id_e d = newId now r"
    then show ?thesis using assms(2) s' fresh Add by (auto simp: ids_def)
  qed
next
  case (Remove i)
  then have "filesData s' = filter (\<lambda>f. id_e f \<noteq> i) (filesData s)"
    using assms(1) by (auto simp: removeFile_filesData)
  then show ?thesis
    using assms(2) by (auto simp: ids_def distinct_map_filter)
next
  case (MoveTo a b)
  then have "mset (filesData s') = mset (filesData s)"
    using assms(1) by (simp add: onDrop_Some)
  then have "mset (ids s') = mset (ids s)"
    by (simp add: ids_def)
  then show ?thesis
    using assms(2) by (metis mset_eq_imp_distinct_iff mset_eq_setD sup_ge1)
qed

lemma run_ids:
  "run env xs s = Some s' \<Longrightarrow> distinct (ids s) \<Longrightarrow> distinct (generated xs) \<Longrightarrow>
   set (generated xs) \<inter> set (ids s) = {} \<Longrightarrow> distinct (ids s')"
proof (induction xs arbitrary: s)
  case Nil
  then show ?case by simp
next
  case (Cons x xs)
  from Cons.prems(1) obtain s1 where s1: "step env x s = Some s1" "run env xs s1 = Some s'"
    by (auto split: option.splits)
  have g: "generated (x # xs) = generated [x] @ generated xs" by (rule generated_Cons)
  have d1: "set (generated [x]) \<inter> set (ids s) = {}"
    using Cons.prems(4) g by auto
  from step_ids [OF s1(1) Cons.prems(2) d1]
  have a: "distinct (ids s1)" and b: "set (ids s1) \<subseteq> set (ids s) \<union> set (generated [x])"
    by simp_all
  have c: "distinct (generated xs)"
    using Cons.prems(3) g by simp
  have d: "set (generated xs) \<inter> set (ids s1) = {}"
    using b Cons.prems(3,4) g by auto
  show ?case by (rule Cons.IH [OF s1(2) a c d])
qed

text \<open>
  C2, as the code has it. \<open>addFile\<close> builds the identifier from the clock and the
  random number generator and never compares it with the identifiers in the set. When
  the identifiers that the adds of a sequence generate are pairwise distinct, the
  identifiers in the set are pairwise distinct after every sequence of adds, removes
  and moves that starts from the empty set; removes and moves never introduce a
  duplicate.
\<close>

theorem ids_stay_unique:
  assumes "filesData s0 = []" and "distinct (generated xs)" and "run env xs s0 = Some s"
  shows "distinct (ids s)"
proof -
  have "ids s0 = []" using assms(1) by (simp add: ids_def)
  then show ?thesis
    using run_ids [OF assms(3) _ assms(2)] by simp
qed

lemma newId_examples:
  "newId 1700000000000 ''0.4fzyo82mvyr'' = ''17000000000004fzyo82mv''"
  "newId 1700000000001 ''0.9k3x0q1zzab'' = ''17000000000019k3x0q1zz''"
  "newId 1700000000002 ''0.xyz'' = ''1700000000002xyz''"
  by (simp_all add: newId_def substr_def toString_digit toString_more digit_def)

lemma run_ops0: "map_option ids (run env0 ops0 (st [])) = Some [''17000000000019k3x0q1zz'']"
  by (simp add: ops0_def handleFiles_def addFile_def isPdf_def a_pdf_def b_pdf_def notes_txt_def
      env0_def generateThumbnail_def Let_def updateUI_def updateButtons_def st_def newId_examples
      onDrop_def splice_insert_def splice_remove_def removeFile_def ids_def)

theorem ids_stay_unique_witness:
  "filesData (st []) = [] \<and> distinct (generated ops0)
   \<and> map_option ids (run env0 ops0 (st [])) = Some [''17000000000019k3x0q1zz'']
   \<and> (\<exists>s. run env0 ops0 (st []) = Some s \<and> distinct (ids s))"
proof -
  have h1: "filesData (st []) = []" by (simp add: st_def)
  have h2: "distinct (generated ops0)" by (simp add: ops0_def newId_examples)
  obtain s where h3: "run env0 ops0 (st []) = Some s"
    using run_ops0 by auto
  from ids_stay_unique [OF h1 h2 h3] h1 h2 h3 run_ops0 show ?thesis by simp
qed

text \<open>
  The claim C2 as written fails: two adds for which \<open>Date.now()\<close> and
  \<open>Math.random()\<close> return the same values put two entries with the same identifier
  into the set.
\<close>

theorem same_clock_and_random_give_same_id:
  "map_option ids
     (run env0 [Add a_pdf 1700000000000 ''0.4fzyo82mvyr'', Add b_pdf 1700000000000 ''0.4fzyo82mvyr'']
        (st []))
   = Some [''17000000000004fzyo82mv'', ''17000000000004fzyo82mv'']"
  by (simp add: handleFiles_def addFile_def isPdf_def a_pdf_def b_pdf_def
      env0_def generateThumbnail_def Let_def updateUI_def updateButtons_def st_def newId_examples
      ids_def)

end
